theory Spec2Isabelle
  imports Complex_Main "HOL-Library.AList" "HOL-Library.Sublist"
begin

section \<open>S3FileManager: the directory synchroniser of s3\_file\_manager.py\<close>

text \<open>
  The theory embeds \<^verbatim>\<open>S3FileManager.sync_directory\<close>, \<^verbatim>\<open>upload_directory\<close> and
  \<^verbatim>\<open>get_file_size\<close> together with the string operations they are built from.
  Python strings are \<open>string\<close>, the two dictionaries of \<^verbatim>\<open>sync_directory\<close> are
  association lists in insertion order, timestamps (\<^verbatim>\<open>st_mtime\<close>,
  \<^verbatim>\<open>last_modified.timestamp()\<close>) are real numbers of which only the order is used,
  exceptions are values, and the calls made on the bucket are recorded in a trace.
\<close>

subsection \<open>Python string operations\<close>

abbreviation slash :: char where
  "slash \<equiv> CHR ''/''"

abbreviation backslash :: char where
  "backslash \<equiv> CHR 0x5C"

text \<open>
  \<^verbatim>\<open>s.replace(old, new)\<close> for a non-empty \<^verbatim>\<open>old\<close>: the string is scanned from the left,
  every occurrence found is replaced and the scan resumes behind it.
\<close>

fun replace_from :: "string \<Rightarrow> string \<Rightarrow> string \<Rightarrow> string" where
  "replace_from old new [] = []"
| "replace_from old new (c # cs) =
     (if take (length old) (c # cs) = old
      then new @ replace_from old new (drop (length old - 1) cs)
      else c # replace_from old new cs)"

text \<open>
  \<^verbatim>\<open>s.replace(old, new)\<close>. For the empty \<^verbatim>\<open>old\<close> Python puts \<^verbatim>\<open>new\<close> in front of
  every character and at the end.
\<close>

definition py_replace :: "string \<Rightarrow> string \<Rightarrow> string \<Rightarrow> string" where
  "py_replace old new s =
     (if old = [] then new @ concat (map (\<lambda>c. c # new) s) else replace_from old new s)"

text \<open>\<^verbatim>\<open>s.lstrip(chars)\<close>: drops every leading character that occurs in \<^verbatim>\<open>chars\<close>.\<close>

definition lstrip :: "string \<Rightarrow> string \<Rightarrow> string" where
  "lstrip chars s = dropWhile (\<lambda>c. c \<in> set chars) s"

text \<open>
  Lines 22, 67 and 78:
  \<^verbatim>\<open>f"{s3_prefix}/{name}".replace('\\', '/').lstrip('/')\<close>.
\<close>

definition make_s3_key :: "string \<Rightarrow> string \<Rightarrow> string" where
  "make_s3_key s3_prefix name =
     lstrip ''/'' (py_replace [backslash] ''/'' (s3_prefix @ ''/'' @ name))"

text \<open>Lines 42 and 63: \<^verbatim>\<open>key.replace(s3_prefix, '').lstrip('/')\<close>.\<close>

definition relative_path :: "string \<Rightarrow> string \<Rightarrow> string" where
  "relative_path s3_prefix key = lstrip ''/'' (py_replace s3_prefix [] key)"

subsection \<open>Dictionaries\<close>

text \<open>
  A Python dict keeps its keys in insertion order; storing under a key that is present
  overwrites the value in place. A dict comprehension stores its items one after the other.
\<close>

type_synonym 'v dict = "(string \<times> 'v) list"

definition dict_of :: "(string \<times> 'v) list \<Rightarrow> 'v dict" where
  "dict_of items = foldl (\<lambda>d (k, v). AList.update k v d) [] items"

subsection \<open>The local walk\<close>

type_synonym timestamp = real

text \<open>
  \<^verbatim>\<open>str\<close> of a relative path joins its components with the separator of the platform.
\<close>

datatype flavour = Posix | Windows

fun sep :: "flavour \<Rightarrow> char" where
  "sep Posix = slash"
| "sep Windows = backslash"

fun join_parts :: "char \<Rightarrow> string list \<Rightarrow> string" where
  "join_parts s [] = []"
| "join_parts s [p] = p"
| "join_parts s (p # q # ps) = p @ s # join_parts s (q # ps)"

text \<open>
  One path \<^verbatim>\<open>f\<close> yielded by \<^verbatim>\<open>local_path.rglob('*')\<close>: the components of
  \<^verbatim>\<open>f.relative_to(local_path)\<close>, whether \<^verbatim>\<open>f\<close> itself is a symbolic link, and what
  \<^verbatim>\<open>f.stat()\<close>, which follows symbolic links, finds (nothing for a dangling link).
\<close>

datatype file_type = Regular | Directory | Special

record walked =
  rel_parts :: "string list"
  is_symlink :: bool
  stat_type :: "file_type option"
  st_mtime :: timestamp

text \<open>\<^verbatim>\<open>Path.is_file()\<close> tests the type reported by \<^verbatim>\<open>stat()\<close>.\<close>

definition is_file :: "walked \<Rightarrow> bool" where
  "is_file f = (stat_type f = Some Regular)"

text \<open>Lines 59-60, the dict comprehension that builds \<^verbatim>\<open>local_files\<close>.\<close>

definition scan_local :: "flavour \<Rightarrow> walked list \<Rightarrow> timestamp dict" where
  "scan_local fl walk =
     dict_of (map (\<lambda>f. (join_parts (sep fl) (rel_parts f), st_mtime f)) (filter is_file walk))"

subsection \<open>The bucket\<close>

text \<open>
  The exceptions a request on the bucket may raise: botocore's \<^verbatim>\<open>ClientError\<close>, the one
  class the code catches, and any exception of another class, for instance the
  \<^verbatim>\<open>S3UploadFailedError\<close> with which \<^verbatim>\<open>upload_file\<close> reports a failed transfer.
\<close>

datatype exn = ClientError | OtherException

datatype call = UploadFile string string | DeleteObject string

datatype line =
    Synced string string
  | ErrorSyncingFile string
  | Deleted string
  | ErrorDeleting string
  | ErrorSyncing
  | Uploaded string string
  | ErrorUploading string
  | ErrorGettingSize

text \<open>
  What a run has done so far: the calls made on the bucket and the lines printed, oldest
  first. \<open>UploadFile name key\<close> stands for
  \<^verbatim>\<open>bucket.upload_file(str(local_path / name), key)\<close> and \<open>DeleteObject key\<close> for
  \<^verbatim>\<open>bucket.Object(key).delete()\<close>.
\<close>

record world =
  calls :: "call list"
  printed :: "line list"

text \<open>
  The bucket answers a call, given the calls made before it, by returning (\<open>None\<close>) or by
  raising an exception.
\<close>

type_synonym bucket = "call list \<Rightarrow> call \<Rightarrow> exn option"

text \<open>
  Iterating \<^verbatim>\<open>bucket.objects.filter(Prefix=s3_prefix)\<close>: the objects whose key starts with
  the prefix, each with its key and \<^verbatim>\<open>last_modified.timestamp()\<close>, or the exception
  raised by the listing.
\<close>

definition objects_filter ::
  "string \<Rightarrow> exn + (string \<times> timestamp) list \<Rightarrow> exn + (string \<times> timestamp) list" where
  "objects_filter s3_prefix listing =
     (case listing of
        Inl e \<Rightarrow> Inl e
      | Inr objs \<Rightarrow> Inr (filter (\<lambda>obj. prefix s3_prefix (fst obj)) objs))"

text \<open>
  \<^verbatim>\<open>try: <call>; print(<ok>)  except ClientError: print(<err>)\<close>.
  Any other exception leaves the \<^verbatim>\<open>try\<close> statement.
\<close>

definition attempt :: "bucket \<Rightarrow> call \<Rightarrow> line \<Rightarrow> line \<Rightarrow> world \<Rightarrow> exn option \<times> world" where
  "attempt B c ok err w =
     (let w' = w\<lparr>calls := calls w @ [c]\<rparr>
      in case B (calls w) c of
           None \<Rightarrow> (None, w'\<lparr>printed := printed w' @ [ok]\<rparr>)
         | Some ClientError \<Rightarrow> (None, w'\<lparr>printed := printed w' @ [err]\<rparr>)
         | Some e \<Rightarrow> (Some e, w'))"

subsection \<open>sync\_directory\<close>

text \<open>Line 68: \<^verbatim>\<open>local_file not in s3_objects or local_mtime > s3_objects[local_file]\<close>.\<close>

definition needs_upload :: "timestamp dict \<Rightarrow> string \<Rightarrow> timestamp \<Rightarrow> bool" where
  "needs_upload s3_objects local_file local_mtime =
     (case map_of s3_objects local_file of
        None \<Rightarrow> True
      | Some remote_mtime \<Rightarrow> local_mtime > remote_mtime)"

text \<open>Lines 66-73, the loop over \<^verbatim>\<open>local_files.items()\<close>.\<close>

fun sync_uploads ::
  "bucket \<Rightarrow> string \<Rightarrow> timestamp dict \<Rightarrow> (string \<times> timestamp) list \<Rightarrow> world \<Rightarrow> exn option \<times> world"
where
  "sync_uploads B s3_prefix s3_objects [] w = (None, w)"
| "sync_uploads B s3_prefix s3_objects ((local_file, local_mtime) # rest) w =
     (let s3_key = make_s3_key s3_prefix local_file
      in if needs_upload s3_objects local_file local_mtime
         then (case attempt B (UploadFile local_file s3_key)
                      (Synced local_file s3_key) (ErrorSyncingFile local_file) w of
                 (None, w') \<Rightarrow> sync_uploads B s3_prefix s3_objects rest w'
               | (Some e, w') \<Rightarrow> (Some e, w'))
         else sync_uploads B s3_prefix s3_objects rest w)"

text \<open>Lines 76-83, the loop over the keys of \<^verbatim>\<open>s3_objects\<close>.\<close>

fun sync_deletes ::
  "bucket \<Rightarrow> string \<Rightarrow> timestamp dict \<Rightarrow> string list \<Rightarrow> world \<Rightarrow> exn option \<times> world"
where
  "sync_deletes B s3_prefix local_files [] w = (None, w)"
| "sync_deletes B s3_prefix local_files (s3_file # rest) w =
     (if map_of local_files s3_file = None
      then (let s3_key = make_s3_key s3_prefix s3_file
            in case attempt B (DeleteObject s3_key) (Deleted s3_key) (ErrorDeleting s3_key) w of
                 (None, w') \<Rightarrow> sync_deletes B s3_prefix local_files rest w'
               | (Some e, w') \<Rightarrow> (Some e, w'))
      else sync_deletes B s3_prefix local_files rest w)"

text \<open>Lines 63-64, the dict comprehension that builds \<^verbatim>\<open>s3_objects\<close>.\<close>

definition scan_remote :: "string \<Rightarrow> (string \<times> timestamp) list \<Rightarrow> timestamp dict" where
  "scan_remote s3_prefix objs =
     dict_of (map (\<lambda>(key, last_modified). (relative_path s3_prefix key, last_modified)) objs)"

text \<open>Lines 63-83, the body of the outer \<^verbatim>\<open>try\<close>.\<close>

definition sync_body ::
  "bucket \<Rightarrow> timestamp dict \<Rightarrow> string \<Rightarrow> bool \<Rightarrow> exn + (string \<times> timestamp) list \<Rightarrow> world
     \<Rightarrow> exn option \<times> world" where
  "sync_body B local_files s3_prefix delete listing w =
     (case objects_filter s3_prefix listing of
        Inl e \<Rightarrow> (Some e, w)
      | Inr objs \<Rightarrow>
          (let s3_objects = scan_remote s3_prefix objs
           in case sync_uploads B s3_prefix s3_objects local_files w of
                (Some e, w') \<Rightarrow> (Some e, w')
              | (None, w') \<Rightarrow>
                  if delete
                  then sync_deletes B s3_prefix local_files (map fst s3_objects) w'
                  else (None, w')))"

text \<open>
  \<^verbatim>\<open>sync_directory\<close>: the local scan, then the body under
  \<^verbatim>\<open>except ClientError as e: print(f"Error syncing: {e}")\<close>. The function has no
  \<^verbatim>\<open>return\<close> statement: it returns \<^verbatim>\<open>None\<close> (\<open>Inr ()\<close>) or an exception that is not
  a \<^verbatim>\<open>ClientError\<close> leaves it (\<open>Inl\<close>).
\<close>

definition sync_directory ::
  "flavour \<Rightarrow> bucket \<Rightarrow> walked list \<Rightarrow> string \<Rightarrow> bool \<Rightarrow> exn + (string \<times> timestamp) list
     \<Rightarrow> (exn + unit) \<times> world" where
  "sync_directory fl B walk s3_prefix delete listing =
     (let local_files = scan_local fl walk
      in case sync_body B local_files s3_prefix delete listing \<lparr>calls = [], printed = []\<rparr> of
           (None, w) \<Rightarrow> (Inr (), w)
         | (Some ClientError, w) \<Rightarrow> (Inr (), w\<lparr>printed := printed w @ [ErrorSyncing]\<rparr>)
         | (Some e, w) \<Rightarrow> (Inl e, w))"

subsection \<open>upload\_directory\<close>

text \<open>
  Lines 19-29, the loop over \<^verbatim>\<open>local_path.rglob('*')\<close>; the third component is
  \<^verbatim>\<open>uploaded_files\<close>.
\<close>

fun upload_loop ::
  "flavour \<Rightarrow> bucket \<Rightarrow> string \<Rightarrow> walked list \<Rightarrow> world \<Rightarrow> string list
     \<Rightarrow> exn option \<times> world \<times> string list" where
  "upload_loop fl B s3_prefix [] w uploaded_files = (None, w, uploaded_files)"
| "upload_loop fl B s3_prefix (file_path # rest) w uploaded_files =
     (if is_file file_path
      then (let relative = join_parts (sep fl) (rel_parts file_path);
                s3_key = make_s3_key s3_prefix relative
            in case B (calls w) (UploadFile relative s3_key) of
                 None \<Rightarrow>
                   upload_loop fl B s3_prefix rest
                     \<lparr>calls = calls w @ [UploadFile relative s3_key],
                      printed = printed w @ [Uploaded relative s3_key]\<rparr>
                     (uploaded_files @ [s3_key])
               | Some ClientError \<Rightarrow>
                   upload_loop fl B s3_prefix rest
                     \<lparr>calls = calls w @ [UploadFile relative s3_key],
                      printed = printed w @ [ErrorUploading relative]\<rparr>
                     uploaded_files
               | Some e \<Rightarrow>
                   (Some e, \<lparr>calls = calls w @ [UploadFile relative s3_key], printed = printed w\<rparr>,
                    uploaded_files))
      else upload_loop fl B s3_prefix rest w uploaded_files)"

definition upload_directory ::
  "flavour \<Rightarrow> bucket \<Rightarrow> walked list \<Rightarrow> string \<Rightarrow> (exn + string list) \<times> world" where
  "upload_directory fl B walk s3_prefix =
     (case upload_loop fl B s3_prefix walk \<lparr>calls = [], printed = []\<rparr> [] of
        (None, w, uploaded_files) \<Rightarrow> (Inr uploaded_files, w)
      | (Some e, w, uploaded_files) \<Rightarrow> (Inl e, w))"

subsection \<open>get\_file\_size\<close>

text \<open>
  Lines 87-93. \<open>content_length key\<close> is the outcome of reading
  \<^verbatim>\<open>bucket.Object(key).content_length\<close>: the size, or the exception raised by the request
  behind it. The result is the returned value (\<^verbatim>\<open>None\<close> is \<open>None\<close>) or the exception that
  leaves the function, with the lines printed.
\<close>

definition get_file_size ::
  "(string \<Rightarrow> exn + nat) \<Rightarrow> string \<Rightarrow> (exn + nat option) \<times> line list" where
  "get_file_size content_length s3_key =
     (case content_length s3_key of
        Inr n \<Rightarrow> (Inr (Some n), [])
      | Inl ClientError \<Rightarrow> (Inr None, [ErrorGettingSize])
      | Inl e \<Rightarrow> (Inl e, []))"

section \<open>Auxiliary definitions\<close>

subsection \<open>The shapes of keys and names used in the statements\<close>

definition slashify :: "char \<Rightarrow> char" where
  "slashify c = (if c = backslash then slash else c)"

text \<open>
  \<^verbatim>\<open>s3_prefix + "/" + name\<close> with every backslash turned into a slash and all leading
  slashes removed.
\<close>

definition normalised_key :: "string \<Rightarrow> string \<Rightarrow> string" where
  "normalised_key s3_prefix name =
     dropWhile (\<lambda>c. c = slash) (map slashify (s3_prefix @ ''/'' @ name))"

text \<open>
  The key as the specification words it: \<^verbatim>\<open>prefix + "/" + relativePath\<close>, duplicate
  slashes collapsed, no leading slash.
\<close>

fun collapse_slashes :: "string \<Rightarrow> string" where
  "collapse_slashes (a # b # cs) =
     (if a = slash \<and> b = slash then collapse_slashes (b # cs) else a # collapse_slashes (b # cs))"
| "collapse_slashes cs = cs"

definition spec_remote_key :: "string \<Rightarrow> string \<Rightarrow> string" where
  "spec_remote_key pre rel =
     (case collapse_slashes (pre @ ''/'' @ rel) of
        [] \<Rightarrow> []
      | c # cs \<Rightarrow> if c = slash then cs else c # cs)"

text \<open>
  The relative path as the specification words it: the prefix removed from the front of
  the key, then a single leading separator stripped.
\<close>

definition spec_relative_path :: "string \<Rightarrow> string \<Rightarrow> string" where
  "spec_relative_path pre key =
     (let rest = (if prefix pre key then drop (length pre) key else key)
      in case rest of
           [] \<Rightarrow> []
         | c # cs \<Rightarrow> if c = slash then cs else c # cs)"

definition leading_separator :: "string \<Rightarrow> bool" where
  "leading_separator name = (case name of [] \<Rightarrow> False | c # cs \<Rightarrow> c = slash \<or> c = backslash)"

text \<open>The names of the local snapshot and of the remote snapshot, in order.\<close>

definition local_names :: "flavour \<Rightarrow> walked list \<Rightarrow> string list" where
  "local_names fl walk = map (\<lambda>f. join_parts (sep fl) (rel_parts f)) (filter is_file walk)"

definition remote_names :: "string \<Rightarrow> exn + (string \<times> timestamp) list \<Rightarrow> string list" where
  "remote_names pre listing =
     (case objects_filter pre listing of
        Inl e \<Rightarrow> []
      | Inr objs \<Rightarrow> map fst (scan_remote pre objs))"

subsection \<open>The calls of a pass that no exception cuts short\<close>

definition planned_uploads ::
  "string \<Rightarrow> timestamp dict \<Rightarrow> (string \<times> timestamp) list \<Rightarrow> call list" where
  "planned_uploads p s3 lf =
     map (\<lambda>(f, t). UploadFile f (make_s3_key p f)) (filter (\<lambda>(f, t). needs_upload s3 f t) lf)"

definition planned_deletes :: "string \<Rightarrow> timestamp dict \<Rightarrow> string list \<Rightarrow> call list" where
  "planned_deletes p lf ks =
     map (\<lambda>k. DeleteObject (make_s3_key p k)) (filter (\<lambda>k. map_of lf k = None) ks)"

text \<open>A bucket whose calls return or raise \<^verbatim>\<open>ClientError\<close>, nothing else.\<close>

definition only_client_errors :: "bucket \<Rightarrow> bool" where
  "only_client_errors B = (\<forall>h c. B h c \<noteq> Some OtherException)"

fun is_upload :: "call \<Rightarrow> bool" where
  "is_upload (UploadFile name key) = True"
| "is_upload (DeleteObject key) = False"

fun is_delete :: "call \<Rightarrow> bool" where
  "is_delete (UploadFile name key) = False"
| "is_delete (DeleteObject key) = True"

subsection \<open>Example trees and buckets\<close>

definition tree_ab :: "walked list" where
  "tree_ab =
     [\<lparr>rel_parts = [''a.txt''], is_symlink = False, stat_type = Some Regular, st_mtime = 100\<rparr>,
      \<lparr>rel_parts = [''b'', ''c.txt''], is_symlink = False, stat_type = Some Regular, st_mtime = 200\<rparr>,
      \<lparr>rel_parts = [''b''], is_symlink = False, stat_type = Some Directory, st_mtime = 200\<rparr>]"

definition remote_ab :: "(string \<times> timestamp) list" where
  "remote_ab = [(''prefix/a.txt'', 100), (''prefix/b/c.txt'', 150), (''prefix/stale.txt'', 50)]"

definition failing_upload :: bucket where
  "failing_upload history c =
     (if c = UploadFile ''b/c.txt'' ''prefix/b/c.txt'' then Some ClientError else None)"

text \<open>
  A bucket on which the transfer of \<^verbatim>\<open>b/c.txt\<close> fails: \<^verbatim>\<open>upload_file\<close> raises
  \<^verbatim>\<open>S3UploadFailedError\<close>, an exception that is not a \<^verbatim>\<open>ClientError\<close>.
\<close>

definition upload_transfer_fails :: bucket where
  "upload_transfer_fails history c =
     (if c = UploadFile ''b/c.txt'' ''prefix/b/c.txt'' then Some OtherException else None)"

definition tree_clash :: "walked list" where
  "tree_clash =
     [\<lparr>rel_parts = [''a'', ''b''], is_symlink = False, stat_type = Some Regular, st_mtime = 1\<rparr>,
      \<lparr>rel_parts = [''a'' @ backslash # ''b''], is_symlink = False, stat_type = Some Regular,
       st_mtime = 2\<rparr>]"

definition tree_link :: "walked list" where
  "tree_link =
     [\<lparr>rel_parts = [''link.txt''], is_symlink = True, stat_type = Some Regular, st_mtime = 1\<rparr>,
      \<lparr>rel_parts = [''dangling''], is_symlink = True, stat_type = None, st_mtime = 0\<rparr>,
      \<lparr>rel_parts = [''sub''], is_symlink = False, stat_type = Some Directory, st_mtime = 1\<rparr>]"

definition tree_nested :: "walked list" where
  "tree_nested =
     [\<lparr>rel_parts = [''b'', ''c.txt''], is_symlink = False, stat_type = Some Regular,
       st_mtime = 100\<rparr>]"

section \<open>Lemmas\<close>

lemmas run_defs =
  sync_directory_def sync_body_def objects_filter_def scan_local_def scan_remote_def dict_of_def
  is_file_def relative_path_def make_s3_key_def py_replace_def lstrip_def needs_upload_def
  attempt_def Let_def

subsection \<open>Strings\<close>

lemma replace_from_char: "replace_from [a] [b] s = map (\<lambda>c. if c = a then b else c) s"
  by (induction s) auto

lemma py_replace_backslash: "py_replace [backslash] ''/'' s = map slashify s"
  by (simp add: py_replace_def replace_from_char slashify_def)

lemma make_s3_key_eq:
  "make_s3_key p n = dropWhile (\<lambda>c. c = slash) (map slashify (p @ ''/'' @ n))"
  by (simp add: make_s3_key_def lstrip_def py_replace_backslash)

lemma replace_from_absent:
  "old \<noteq> [] \<Longrightarrow> \<not> sublist old s \<Longrightarrow> replace_from old new s = s"
proof (induction s)
  case Nil
  then show ?case by simp
next
  case (Cons c cs)
  have "take (length old) (c # cs) \<noteq> old"
  proof
    assume "take (length old) (c # cs) = old"
    then have "prefix old (c # cs)" by (metis take_is_prefix)
    then have "sublist old (c # cs)" by (rule prefix_imp_sublist)
    with Cons.prems show False by simp
  qed
  moreover have "\<not> sublist old cs"
    using Cons.prems(2) by (auto simp: sublist_Cons_right)
  ultimately show ?case using Cons by simp
qed

lemma replace_from_front:
  assumes "old \<noteq> []"
  shows "replace_from old new (old @ rest) = new @ replace_from old new rest"
proof -
  obtain c cs where old: "old = c # cs" using assms by (cases old) auto
  show ?thesis by (simp add: old)
qed

lemma relative_path_front:
  assumes "p = [] \<or> \<not> sublist p rest"
  shows "relative_path p (p @ rest) = dropWhile (\<lambda>c. c = slash) rest"
proof (cases "p = []")
  case True
  then show ?thesis by (simp add: relative_path_def py_replace_def lstrip_def)
next
  case False
  with assms have "\<not> sublist p rest" by simp
  with False show ?thesis
    by (simp add: relative_path_def py_replace_def lstrip_def replace_from_front replace_from_absent)
qed

subsection \<open>Dictionaries\<close>

lemma foldl_update_map_of:
  "map_of (foldl (\<lambda>d (k, v). AList.update k v d) d items) = map_of d ++ map_of (rev items)"
  by (induction items arbitrary: d) (auto simp: update_conv' map_add_upd_left fun_eq_iff map_add_def split: option.splits)

lemma foldl_update_distinct:
  "distinct (map fst d) \<Longrightarrow> distinct (map fst (foldl (\<lambda>d (k, v). AList.update k v d) d items))"
  by (induction items arbitrary: d) (auto simp: distinct_update)

lemma foldl_update_keys:
  "fst ` set (foldl (\<lambda>d (k, v). AList.update k v d) d items) = fst ` set d \<union> fst ` set items"
proof (induction items arbitrary: d)
  case Nil
  then show ?case by simp
next
  case (Cons x xs)
  obtain k v where x: "x = (k, v)" by (cases x)
  have "fst ` set (foldl (\<lambda>d (k, v). AList.update k v d) (AList.update k v d) xs)
          = fst ` set (AList.update k v d) \<union> fst ` set xs"
    by (rule Cons.IH)
  then show ?case by (simp add: x dom_update Un_ac)
qed

lemma dict_of_distinct: "distinct (map fst (dict_of items))"
  by (simp add: dict_of_def foldl_update_distinct)

lemma dict_of_keys: "fst ` set (dict_of items) = fst ` set items"
  by (simp add: dict_of_def foldl_update_keys)

lemma dict_of_map_of: "map_of (dict_of items) = map_of (rev items)"
  by (simp add: dict_of_def foldl_update_map_of)

subsection \<open>The two loops\<close>

lemma attempt_calls: "calls (snd (attempt B c ok err w)) = calls w @ [c]"
  by (simp add: attempt_def Let_def split: option.splits exn.splits)

lemma attempt_fst:
  "fst (attempt B c ok err w) = (if B (calls w) c = Some OtherException then Some OtherException else None)"
  by (simp add: attempt_def Let_def split: option.splits exn.splits)

lemma sync_uploads_calls:
  "\<exists>us. calls (snd (sync_uploads B p s3 lf w)) = calls w @ us
        \<and> prefix us (planned_uploads p s3 lf)
        \<and> (fst (sync_uploads B p s3 lf w) = None \<longrightarrow> us = planned_uploads p s3 lf)"
proof (induction lf arbitrary: w)
  case Nil
  then show ?case by (simp add: planned_uploads_def)
next
  case (Cons x rest)
  obtain f t where x: "x = (f, t)" by (cases x)
  show ?case
  proof (cases "needs_upload s3 f t")
    case False
    with Cons.IH [of w] show ?thesis by (simp add: x planned_uploads_def)
  next
    case True
    let ?c = "UploadFile f (make_s3_key p f)"
    obtain r w' where a: "attempt B ?c (Synced f (make_s3_key p f)) (ErrorSyncingFile f) w = (r, w')"
      by (cases "attempt B ?c (Synced f (make_s3_key p f)) (ErrorSyncingFile f) w")
    have w': "calls w' = calls w @ [?c]"
      using attempt_calls [of B ?c "Synced f (make_s3_key p f)" "ErrorSyncingFile f" w] a by simp
    have pl: "planned_uploads p s3 (x # rest) = ?c # planned_uploads p s3 rest"
      using True by (simp add: x planned_uploads_def)
    show ?thesis
    proof (cases r)
      case None
      from Cons.IH [of w'] obtain us where
        us: "calls (snd (sync_uploads B p s3 rest w')) = calls w' @ us
            \<and> prefix us (planned_uploads p s3 rest)
            \<and> (fst (sync_uploads B p s3 rest w') = None \<longrightarrow> us = planned_uploads p s3 rest)"
        ..
      have eq: "sync_uploads B p s3 (x # rest) w = sync_uploads B p s3 rest w'"
        using True a None by (simp add: x Let_def)
      show ?thesis unfolding eq pl
        by (rule exI [of _ "?c # us"]) (use us w' in simp)
    next
      case (Some e)
      have eq: "sync_uploads B p s3 (x # rest) w = (Some e, w')"
        using True a Some by (simp add: x Let_def)
      show ?thesis unfolding eq pl
        by (rule exI [of _ "[?c]"]) (use w' in simp)
    qed
  qed
qed

lemma sync_uploads_fst:
  "only_client_errors B \<Longrightarrow> fst (sync_uploads B p s3 lf w) = None"
proof (induction lf arbitrary: w)
  case Nil
  then show ?case by simp
next
  case (Cons x rest)
  obtain f t where x: "x = (f, t)" by (cases x)
  let ?a = "attempt B (UploadFile f (make_s3_key p f)) (Synced f (make_s3_key p f)) (ErrorSyncingFile f) w"
  have "fst ?a = None"
    using Cons.prems by (simp add: attempt_fst only_client_errors_def)
  then obtain w' where "?a = (None, w')" by (cases ?a) auto
  with Cons show ?case by (simp add: x Let_def)
qed

lemma sync_deletes_calls:
  "\<exists>ds. calls (snd (sync_deletes B p lf ks w)) = calls w @ ds
        \<and> prefix ds (planned_deletes p lf ks)
        \<and> (fst (sync_deletes B p lf ks w) = None \<longrightarrow> ds = planned_deletes p lf ks)"
proof (induction ks arbitrary: w)
  case Nil
  then show ?case by (simp add: planned_deletes_def)
next
  case (Cons k rest)
  show ?case
  proof (cases "map_of lf k = None")
    case False
    then have skip: "sync_deletes B p lf (k # rest) w = sync_deletes B p lf rest w"
      "planned_deletes p lf (k # rest) = planned_deletes p lf rest"
      by (simp_all add: planned_deletes_def del: not_None_eq)
    show ?thesis unfolding skip by (rule Cons.IH)
  next
    case True
    let ?c = "DeleteObject (make_s3_key p k)"
    obtain r w' where a: "attempt B ?c (Deleted (make_s3_key p k)) (ErrorDeleting (make_s3_key p k)) w = (r, w')"
      by (cases "attempt B ?c (Deleted (make_s3_key p k)) (ErrorDeleting (make_s3_key p k)) w")
    have w': "calls w' = calls w @ [?c]"
      using attempt_calls [of B ?c "Deleted (make_s3_key p k)" "ErrorDeleting (make_s3_key p k)" w] a by simp
    have pl: "planned_deletes p lf (k # rest) = ?c # planned_deletes p lf rest"
      using True by (simp add: planned_deletes_def)
    show ?thesis
    proof (cases r)
      case None
      from Cons.IH [of w'] obtain ds where
        ds: "calls (snd (sync_deletes B p lf rest w')) = calls w' @ ds
            \<and> prefix ds (planned_deletes p lf rest)
            \<and> (fst (sync_deletes B p lf rest w') = None \<longrightarrow> ds = planned_deletes p lf rest)"
        ..
      have eq: "sync_deletes B p lf (k # rest) w = sync_deletes B p lf rest w'"
        using True a None by (simp add: Let_def)
      show ?thesis unfolding eq pl
        by (rule exI [of _ "?c # ds"]) (use ds w' in simp)
    next
      case (Some e)
      have eq: "sync_deletes B p lf (k # rest) w = (Some e, w')"
        using True a Some by (simp add: Let_def)
      show ?thesis unfolding eq pl
        by (rule exI [of _ "[?c]"]) (use w' in simp)
    qed
  qed
qed

lemma sync_deletes_fst:
  "only_client_errors B \<Longrightarrow> fst (sync_deletes B p lf ks w) = None"
proof (induction ks arbitrary: w)
  case Nil
  then show ?case by simp
next
  case (Cons k rest)
  show ?case
  proof (cases "map_of lf k = None")
    case False
    then have skip: "sync_deletes B p lf (k # rest) w = sync_deletes B p lf rest w"
      by (simp del: not_None_eq)
    show ?thesis unfolding skip by (rule Cons.IH [OF Cons.prems])
  next
    case True
    let ?a = "attempt B (DeleteObject (make_s3_key p k)) (Deleted (make_s3_key p k))
                (ErrorDeleting (make_s3_key p k)) w"
    have "fst ?a = None"
      using Cons.prems by (simp add: attempt_fst only_client_errors_def)
    then obtain w' where a: "?a = (None, w')" by (cases ?a) auto
    have step: "sync_deletes B p lf (k # rest) w = sync_deletes B p lf rest w'"
      using True a by (simp add: Let_def)
    show ?thesis unfolding step by (rule Cons.IH [OF Cons.prems])
  qed
qed

subsection \<open>A whole pass\<close>

lemma sync_body_calls:
  assumes "objects_filter p listing = Inr objs"
  shows "\<exists>us ds. calls (snd (sync_body B lf p d listing w)) = calls w @ us @ ds
           \<and> prefix us (planned_uploads p (scan_remote p objs) lf)
           \<and> prefix ds (if d then planned_deletes p lf (map fst (scan_remote p objs)) else [])
           \<and> (fst (sync_body B lf p d listing w) = None \<longrightarrow>
                  us = planned_uploads p (scan_remote p objs) lf
                \<and> ds = (if d then planned_deletes p lf (map fst (scan_remote p objs)) else []))"
proof -
  let ?s3 = "scan_remote p objs"
  obtain r1 w1 where up: "sync_uploads B p ?s3 lf w = (r1, w1)"
    by (cases "sync_uploads B p ?s3 lf w")
  from sync_uploads_calls [of B p ?s3 lf w] obtain us where
    us: "calls (snd (sync_uploads B p ?s3 lf w)) = calls w @ us
          \<and> prefix us (planned_uploads p ?s3 lf)
          \<and> (fst (sync_uploads B p ?s3 lf w) = None \<longrightarrow> us = planned_uploads p ?s3 lf)" ..
  show ?thesis
  proof (cases r1)
    case (Some e)
    have eq: "sync_body B lf p d listing w = (Some e, w1)"
      using assms up Some by (simp add: sync_body_def)
    show ?thesis unfolding eq
      by (rule exI [of _ us], rule exI [of _ "[]"]) (use us up in simp)
  next
    case None
    show ?thesis
    proof (cases d)
      case False
      have eq: "sync_body B lf p d listing w = (None, w1)"
        using assms up None False by (simp add: sync_body_def)
      show ?thesis unfolding eq
        by (rule exI [of _ us], rule exI [of _ "[]"]) (use us up None False in simp)
    next
      case True
      have eq: "sync_body B lf p d listing w = sync_deletes B p lf (map fst ?s3) w1"
        using assms up None True by (simp add: sync_body_def)
      from sync_deletes_calls [of B p lf "map fst ?s3" w1] obtain ds where
        ds: "calls (snd (sync_deletes B p lf (map fst ?s3) w1)) = calls w1 @ ds
              \<and> prefix ds (planned_deletes p lf (map fst ?s3))
              \<and> (fst (sync_deletes B p lf (map fst ?s3) w1) = None \<longrightarrow>
                    ds = planned_deletes p lf (map fst ?s3))" ..
      show ?thesis unfolding eq
        by (rule exI [of _ us], rule exI [of _ ds]) (use us up ds None True in simp)
    qed
  qed
qed

lemma sync_body_fst:
  assumes "only_client_errors B" "objects_filter p listing = Inr objs"
  shows "fst (sync_body B lf p d listing w) = None"
proof -
  let ?s3 = "scan_remote p objs"
  have "fst (sync_uploads B p ?s3 lf w) = None"
    using assms(1) by (rule sync_uploads_fst)
  then obtain w1 where up: "sync_uploads B p ?s3 lf w = (None, w1)"
    by (cases "sync_uploads B p ?s3 lf w") auto
  have "fst (sync_deletes B p lf (map fst ?s3) w1) = None"
    using assms(1) by (rule sync_deletes_fst)
  then show ?thesis using assms(2) up by (simp add: sync_body_def)
qed

lemma sync_directory_calls_body:
  "calls (snd (sync_directory fl B walk p d listing))
     = calls (snd (sync_body B (scan_local fl walk) p d listing \<lparr>calls = [], printed = []\<rparr>))"
  by (simp add: sync_directory_def Let_def split: prod.splits option.splits exn.splits)

lemma sync_directory_calls:
  assumes "objects_filter p listing = Inr objs"
  shows "\<exists>us ds. calls (snd (sync_directory fl B walk p d listing)) = us @ ds
           \<and> prefix us (planned_uploads p (scan_remote p objs) (scan_local fl walk))
           \<and> prefix ds (if d then planned_deletes p (scan_local fl walk) (map fst (scan_remote p objs)) else [])"
proof -
  from sync_body_calls [OF assms, of B "scan_local fl walk" d "\<lparr>calls = [], printed = []\<rparr>"]
  obtain us ds where
    "calls (snd (sync_body B (scan_local fl walk) p d listing \<lparr>calls = [], printed = []\<rparr>))
        = calls \<lparr>calls = [], printed = []\<rparr> @ us @ ds
     \<and> prefix us (planned_uploads p (scan_remote p objs) (scan_local fl walk))
     \<and> prefix ds (if d then planned_deletes p (scan_local fl walk) (map fst (scan_remote p objs)) else [])
     \<and> (fst (sync_body B (scan_local fl walk) p d listing \<lparr>calls = [], printed = []\<rparr>) = None \<longrightarrow>
                  us = planned_uploads p (scan_remote p objs) (scan_local fl walk)
                \<and> ds = (if d then planned_deletes p (scan_local fl walk) (map fst (scan_remote p objs)) else []))"
    by (elim exE)
  then show ?thesis
    unfolding sync_directory_calls_body
    by (intro exI [of _ us] exI [of _ ds]) simp
qed

lemma sync_directory_calls_complete:
  assumes "only_client_errors B" "objects_filter p listing = Inr objs"
  shows "calls (snd (sync_directory fl B walk p d listing))
           = planned_uploads p (scan_remote p objs) (scan_local fl walk)
             @ (if d then planned_deletes p (scan_local fl walk) (map fst (scan_remote p objs)) else [])"
proof -
  have none: "fst (sync_body B (scan_local fl walk) p d listing \<lparr>calls = [], printed = []\<rparr>) = None"
    using assms by (rule sync_body_fst)
  from sync_body_calls [OF assms(2), of B "scan_local fl walk" d "\<lparr>calls = [], printed = []\<rparr>"]
  obtain us ds where
    "calls (snd (sync_body B (scan_local fl walk) p d listing \<lparr>calls = [], printed = []\<rparr>))
        = calls \<lparr>calls = [], printed = []\<rparr> @ us @ ds
     \<and> prefix us (planned_uploads p (scan_remote p objs) (scan_local fl walk))
     \<and> prefix ds (if d then planned_deletes p (scan_local fl walk) (map fst (scan_remote p objs)) else [])
     \<and> (fst (sync_body B (scan_local fl walk) p d listing \<lparr>calls = [], printed = []\<rparr>) = None \<longrightarrow>
                  us = planned_uploads p (scan_remote p objs) (scan_local fl walk)
                \<and> ds = (if d then planned_deletes p (scan_local fl walk) (map fst (scan_remote p objs)) else []))"
    by (elim exE)
  with none show ?thesis
    unfolding sync_directory_calls_body by simp
qed

lemma sync_directory_listing_error:
  assumes "listing = Inl e"
  shows "sync_directory fl B walk p d listing
           = (if e = ClientError then (Inr (), \<lparr>calls = [], printed = [ErrorSyncing]\<rparr>)
              else (Inl e, \<lparr>calls = [], printed = []\<rparr>))"
  using assms by (cases e) (simp_all add: sync_directory_def sync_body_def objects_filter_def)

lemma planned_uploads_set:
  "set (planned_uploads p s3 lf) = {UploadFile f (make_s3_key p f) | f t. (f, t) \<in> set lf \<and> needs_upload s3 f t}"
  by (auto simp: planned_uploads_def)

lemma planned_deletes_set:
  "set (planned_deletes p lf ks) = {DeleteObject (make_s3_key p k) | k. k \<in> set ks \<and> map_of lf k = None}"
  by (auto simp: planned_deletes_def)

lemma scan_local_distinct: "distinct (map fst (scan_local fl walk))"
  by (simp add: scan_local_def dict_of_distinct)

lemma needs_upload_iff:
  "needs_upload s3 f t \<longleftrightarrow> (map_of s3 f = None \<or> (\<exists>rt. map_of s3 f = Some rt \<and> rt < t))"
  by (simp add: needs_upload_def split: option.splits)

subsection \<open>The example trees\<close>

lemma scan_local_tree_ab: "scan_local Posix tree_ab = [(''a.txt'', 100), (''b/c.txt'', 200)]"
  by (simp add: tree_ab_def scan_local_def dict_of_def is_file_def)

lemma scan_remote_ab:
  "scan_remote ''prefix'' remote_ab = [(''a.txt'', 100), (''b/c.txt'', 150), (''stale.txt'', 50)]"
  by (simp add: remote_ab_def scan_remote_def dict_of_def relative_path_def py_replace_def lstrip_def)

lemma objects_filter_ab: "objects_filter ''prefix'' (Inr remote_ab) = Inr remote_ab"
  by (simp add: objects_filter_def remote_ab_def)

lemma run_ab:
  "calls (snd (sync_directory Posix (\<lambda>history c. None) tree_ab ''prefix'' True (Inr remote_ab)))
     = [UploadFile ''b/c.txt'' ''prefix/b/c.txt'', DeleteObject ''prefix/stale.txt'']"
  by (simp add: sync_directory_def sync_body_def objects_filter_ab scan_local_tree_ab scan_remote_ab
        needs_upload_def attempt_def make_s3_key_def py_replace_def lstrip_def Let_def)

subsection \<open>Keys and names\<close>

lemma make_s3_key_normalised: "make_s3_key p n = normalised_key p n"
  by (simp add: make_s3_key_eq normalised_key_def)

lemma scan_local_names: "fst ` set (scan_local fl walk) = set (local_names fl walk)"
  by (simp add: scan_local_def dict_of_keys local_names_def image_image)

lemma upload_loop_calls:
  "set (calls (fst (snd (upload_loop fl B p walk w ups))))
     \<subseteq> set (calls w) \<union> (\<lambda>n. UploadFile n (make_s3_key p n)) ` set (local_names fl walk)"
proof (induction walk arbitrary: w ups)
  case Nil
  then show ?case by simp
next
  case (Cons f rest)
  show ?case
  proof (cases "is_file f")
    case False
    then have skip: "upload_loop fl B p (f # rest) w ups = upload_loop fl B p rest w ups"
      "local_names fl (f # rest) = local_names fl rest"
      by (simp_all add: local_names_def)
    show ?thesis unfolding skip by (rule Cons.IH)
  next
    case True
    let ?n = "join_parts (sep fl) (rel_parts f)"
    let ?c = "UploadFile ?n (make_s3_key p ?n)"
    have names: "local_names fl (f # rest) = ?n # local_names fl rest"
      using True by (simp add: local_names_def)
    show ?thesis
    proof (cases "B (calls w) ?c")
      case None
      let ?w' = "\<lparr>calls = calls w @ [?c], printed = printed w @ [Uploaded ?n (make_s3_key p ?n)]\<rparr>"
      have step: "upload_loop fl B p (f # rest) w ups
                    = upload_loop fl B p rest ?w' (ups @ [make_s3_key p ?n])"
        using True None by (simp add: Let_def)
      show ?thesis unfolding step names
        using Cons.IH [of ?w' "ups @ [make_s3_key p ?n]"] by auto
    next
      case (Some e)
      show ?thesis
      proof (cases e)
        case ClientError
        let ?w' = "\<lparr>calls = calls w @ [?c], printed = printed w @ [ErrorUploading ?n]\<rparr>"
        have step: "upload_loop fl B p (f # rest) w ups = upload_loop fl B p rest ?w' ups"
          using True Some ClientError by (simp add: Let_def)
        show ?thesis unfolding step names
          using Cons.IH [of ?w' ups] by auto
      next
        case OtherException
        have step: "upload_loop fl B p (f # rest) w ups
                      = (Some e, \<lparr>calls = calls w @ [?c], printed = printed w\<rparr>, ups)"
          using True Some OtherException by (simp add: Let_def)
        show ?thesis unfolding step names by auto
      qed
    qed
  qed
qed

lemma upload_directory_calls:
  "set (calls (snd (upload_directory fl B walk p)))
     \<subseteq> (\<lambda>n. UploadFile n (make_s3_key p n)) ` set (local_names fl walk)"
proof -
  obtain r w ups where l: "upload_loop fl B p walk \<lparr>calls = [], printed = []\<rparr> [] = (r, w, ups)"
    by (cases "upload_loop fl B p walk \<lparr>calls = [], printed = []\<rparr> []")
  have "calls (snd (upload_directory fl B walk p)) = calls w"
    using l by (simp add: upload_directory_def split: option.splits)
  then show ?thesis
    using upload_loop_calls [of fl B p walk "\<lparr>calls = [], printed = []\<rparr>" "[]"] l by simp
qed

lemma planned_uploads_subset:
  "set (planned_uploads p s3 (scan_local fl walk))
     \<subseteq> (\<lambda>n. UploadFile n (make_s3_key p n)) ` set (local_names fl walk)"
proof
  fix c
  assume "c \<in> set (planned_uploads p s3 (scan_local fl walk))"
  then obtain f t where ft: "(f, t) \<in> set (scan_local fl walk)" and c: "c = UploadFile f (make_s3_key p f)"
    by (auto simp: planned_uploads_set)
  from ft have "f \<in> fst ` set (scan_local fl walk)" by force
  then have "f \<in> set (local_names fl walk)" by (simp add: scan_local_names)
  then show "c \<in> (\<lambda>n. UploadFile n (make_s3_key p n)) ` set (local_names fl walk)"
    unfolding c by (rule imageI)
qed

lemma sync_directory_calls_set:
  "set (calls (snd (sync_directory fl B walk p d listing)))
     \<subseteq> (\<lambda>n. UploadFile n (make_s3_key p n)) ` set (local_names fl walk)
       \<union> (\<lambda>n. DeleteObject (make_s3_key p n)) ` set (remote_names p listing)"
proof (cases "objects_filter p listing")
  case (Inl e)
  then have "listing = Inl e" by (simp add: objects_filter_def split: sum.splits)
  then have "calls (snd (sync_directory fl B walk p d listing)) = []"
    by (simp add: sync_directory_listing_error)
  then show ?thesis by simp
next
  case (Inr objs)
  from sync_directory_calls [OF Inr, of fl B walk d] obtain us ds where
    c: "calls (snd (sync_directory fl B walk p d listing)) = us @ ds"
    and u: "prefix us (planned_uploads p (scan_remote p objs) (scan_local fl walk))"
    and dd: "prefix ds (if d then planned_deletes p (scan_local fl walk)
                                       (map fst (scan_remote p objs)) else [])"
    by (elim exE conjE)
  have "set us \<subseteq> (\<lambda>n. UploadFile n (make_s3_key p n)) ` set (local_names fl walk)"
    using set_mono_prefix [OF u] planned_uploads_subset [of p "scan_remote p objs" fl walk]
    by (rule subset_trans)
  moreover have "set ds \<subseteq> (\<lambda>n. DeleteObject (make_s3_key p n)) ` set (remote_names p listing)"
  proof
    fix c
    assume "c \<in> set ds"
    with set_mono_prefix [OF dd]
    have "c \<in> set (planned_deletes p (scan_local fl walk) (map fst (scan_remote p objs)))"
      by (cases d) auto
    then obtain k where "k \<in> set (map fst (scan_remote p objs))" "c = DeleteObject (make_s3_key p k)"
      unfolding planned_deletes_set by blast
    then show "c \<in> (\<lambda>n. DeleteObject (make_s3_key p n)) ` set (remote_names p listing)"
      using Inr by (simp add: remote_names_def)
  qed
  ultimately show ?thesis unfolding c by auto
qed

lemma dropWhile_slash_no_leading:
  "\<not> leading_separator n \<Longrightarrow> dropWhile (\<lambda>c. c = slash) (map slashify n) = map slashify n"
  by (cases n) (auto simp: leading_separator_def slashify_def)

lemma normalised_split:
  "normalised_key p n = dropWhile (\<lambda>c. c = slash) ((map slashify p @ ''/'') @ map slashify n)"
  by (simp add: normalised_key_def slashify_def)

lemma normalised_cases:
  assumes "\<not> leading_separator n"
  shows "normalised_key p n =
           (if \<forall>c \<in> set p. slashify c = slash then map slashify n
            else dropWhile (\<lambda>c. c = slash) (map slashify p @ ''/'') @ map slashify n)"
proof (cases "\<forall>c \<in> set p. slashify c = slash")
  case True
  then have "\<And>x. x \<in> set (map slashify p @ ''/'') \<Longrightarrow> x = slash" by auto
  then have "dropWhile (\<lambda>c. c = slash) ((map slashify p @ ''/'') @ map slashify n)
               = dropWhile (\<lambda>c. c = slash) (map slashify n)"
    by (rule dropWhile_append2)
  with True assms show ?thesis
    by (simp add: normalised_split dropWhile_slash_no_leading)
next
  case False
  then obtain c where c: "c \<in> set p" "slashify c \<noteq> slash" by blast
  then have "slashify c \<in> set (map slashify p @ ''/'')" by simp
  then have "dropWhile (\<lambda>c. c = slash) ((map slashify p @ ''/'') @ map slashify n)
          = dropWhile (\<lambda>c. c = slash) (map slashify p @ ''/'') @ map slashify n"
    by (rule dropWhile_append1) (rule c(2))
  with False show ?thesis by (simp add: normalised_split)
qed

lemma normalised_eq_imp:
  assumes "\<not> leading_separator n1" "\<not> leading_separator n2"
    and "normalised_key p n1 = normalised_key p n2"
  shows "map slashify n1 = map slashify n2"
  using assms(3) by (simp add: normalised_cases [OF assms(1)] normalised_cases [OF assms(2)] split: if_splits)

section \<open>The claims\<close>

subsection \<open>C1: which local files are uploaded\<close>

text \<open>
  Claim C1. In a pass whose listing succeeds and in which no call on the bucket raises
  anything but \<^verbatim>\<open>ClientError\<close>, for every entry (path, local mtime) of the local
  snapshot an upload of that path is attempted if and only if the path is absent from the
  remote snapshot or the local mtime is strictly greater than the remote entry's mtime; an
  entry whose mtime equals the remote one is not uploaded.
\<close>

theorem upload_iff_new_or_newer:
  assumes "only_client_errors B"
    and "objects_filter s3_prefix listing = Inr objs"
    and "(path, local_mtime) \<in> set (scan_local fl walk)"
  shows "((\<exists>key. UploadFile path key
              \<in> set (calls (snd (sync_directory fl B walk s3_prefix delete listing))))
            \<longleftrightarrow> (map_of (scan_remote s3_prefix objs) path = None
                 \<or> (\<exists>remote_mtime. map_of (scan_remote s3_prefix objs) path = Some remote_mtime
                       \<and> remote_mtime < local_mtime)))
       \<and> (map_of (scan_remote s3_prefix objs) path = Some local_mtime \<longrightarrow>
            (\<forall>key. UploadFile path key
               \<notin> set (calls (snd (sync_directory fl B walk s3_prefix delete listing)))))"
proof -
  let ?lf = "scan_local fl walk" and ?s3 = "scan_remote s3_prefix objs"
  let ?cs = "calls (snd (sync_directory fl B walk s3_prefix delete listing))"
  have cs: "?cs = planned_uploads s3_prefix ?s3 ?lf
                  @ (if delete then planned_deletes s3_prefix ?lf (map fst ?s3) else [])"
    using assms(1,2) by (rule sync_directory_calls_complete)
  have mem: "(\<exists>key. UploadFile path key \<in> set ?cs)
               \<longleftrightarrow> (\<exists>t. (path, t) \<in> set ?lf \<and> needs_upload ?s3 path t)"
    unfolding cs by (auto simp: planned_uploads_set planned_deletes_set)
  have uniq: "t = local_mtime" if "(path, t) \<in> set ?lf" for t
    using eq_key_imp_eq_value [OF scan_local_distinct that assms(3)] .
  have iff: "(\<exists>key. UploadFile path key \<in> set ?cs) \<longleftrightarrow> needs_upload ?s3 path local_mtime"
    unfolding mem using uniq assms(3) by blast
  have none: "\<forall>key. UploadFile path key \<notin> set ?cs"
    if "map_of ?s3 path = Some local_mtime"
    using iff that by (simp add: needs_upload_def)
  show ?thesis
    using iff none by (simp add: needs_upload_iff)
qed

theorem upload_iff_new_or_newer_witness:
  "(\<exists>key. UploadFile ''b/c.txt'' key
        \<in> set (calls (snd (sync_directory Posix failing_upload tree_ab ''prefix'' True (Inr remote_ab)))))
   \<and> (\<forall>key. UploadFile ''a.txt'' key
        \<notin> set (calls (snd (sync_directory Posix failing_upload tree_ab ''prefix'' True (Inr remote_ab)))))"
proof -
  have B: "only_client_errors failing_upload"
    by (simp add: only_client_errors_def failing_upload_def)
  have b: "(''b/c.txt'', 200) \<in> set (scan_local Posix tree_ab)"
    and a: "(''a.txt'', 100) \<in> set (scan_local Posix tree_ab)"
    by (simp_all add: scan_local_tree_ab)
  show ?thesis
    using upload_iff_new_or_newer [OF B objects_filter_ab b, of True]
          upload_iff_new_or_newer [OF B objects_filter_ab a, of True]
    by (simp add: scan_remote_ab)
qed

subsection \<open>C2: a failing listing\<close>

text \<open>
  Claim C2, as the specification states it, has \<^verbatim>\<open>sync\<close> return the error of a failed
  listing to its caller. \<^verbatim>\<open>sync_directory\<close> catches the \<^verbatim>\<open>ClientError\<close>: on the example
  tree the call returns \<^verbatim>\<open>None\<close>, as a pass without any failure does.
\<close>

theorem listing_error_not_returned:
  "fst (sync_directory Posix (\<lambda>history c. None) tree_ab ''prefix'' True (Inl ClientError)) = Inr ()"
  by (simp add: sync_directory_def sync_body_def objects_filter_def)

text \<open>
  Claim C2, amended. When the listing raises \<^verbatim>\<open>ClientError\<close>, \<^verbatim>\<open>sync_directory\<close> makes no
  upload and no delete call, prints the line \<^verbatim>\<open>Error syncing\<close> and returns \<^verbatim>\<open>None\<close>; the
  error does not reach the caller. An exception of another class raised by the listing
  leaves \<^verbatim>\<open>sync_directory\<close>, again with no call made.
\<close>

theorem listing_client_error_is_swallowed:
  "sync_directory fl B walk s3_prefix delete (Inl ClientError)
     = (Inr (), \<lparr>calls = [], printed = [ErrorSyncing]\<rparr>)
   \<and> sync_directory fl B walk s3_prefix delete (Inl OtherException)
     = (Inl OtherException, \<lparr>calls = [], printed = []\<rparr>)"
  by (simp add: sync_directory_listing_error)

subsection \<open>C3: the shape of a remote key\<close>

text \<open>
  Claim C3, as the specification states it, collapses duplicate slashes. With the prefix
  \<^verbatim>\<open>a/\<close> the pass uploads \<^verbatim>\<open>b.txt\<close> under the key \<^verbatim>\<open>a//b.txt\<close>, where the
  specification's key is \<^verbatim>\<open>a/b.txt\<close>.
\<close>

theorem duplicate_slashes_kept:
  "UploadFile ''b.txt'' ''a//b.txt''
      \<in> set (calls (snd (sync_directory Posix (\<lambda>history c. None)
            [\<lparr>rel_parts = [''b.txt''], is_symlink = False, stat_type = Some Regular, st_mtime = 1\<rparr>]
            ''a/'' False (Inr []))))
   \<and> spec_remote_key ''a/'' ''b.txt'' = ''a/b.txt''"
  by (simp add: run_defs spec_remote_key_def)

text \<open>
  Claim C3, amended. Every key that \<^verbatim>\<open>sync_directory\<close> uploads to or deletes, and every
  key that \<^verbatim>\<open>upload_directory\<close> uploads to, is \<^verbatim>\<open>prefix + "/" + name\<close> with every
  backslash replaced by a slash and all leading slashes removed, where the name is a name
  of the local snapshot (uploads) or of the remote snapshot (deletes). Slashes inside the
  key are left as they are.
\<close>

theorem remote_key_form:
  "set (calls (snd (sync_directory fl B walk s3_prefix delete listing)))
     \<subseteq> (\<lambda>name. UploadFile name (normalised_key s3_prefix name)) ` set (local_names fl walk)
       \<union> (\<lambda>name. DeleteObject (normalised_key s3_prefix name)) ` set (remote_names s3_prefix listing)
   \<and> set (calls (snd (upload_directory fl B walk s3_prefix)))
     \<subseteq> (\<lambda>name. UploadFile name (normalised_key s3_prefix name)) ` set (local_names fl walk)"
  using sync_directory_calls_set [of fl B walk s3_prefix delete listing]
        upload_directory_calls [of fl B walk s3_prefix]
  by (simp add: make_s3_key_normalised)

theorem remote_key_form_witness:
  "UploadFile ''b/c.txt'' (normalised_key ''prefix'' ''b/c.txt'')
     \<in> (\<lambda>name. UploadFile name (normalised_key ''prefix'' name)) ` set (local_names Posix tree_ab)
       \<union> (\<lambda>name. DeleteObject (normalised_key ''prefix'' name))
            ` set (remote_names ''prefix'' (Inr remote_ab))
   \<and> DeleteObject ''prefix/stale.txt''
     \<in> (\<lambda>name. UploadFile name (normalised_key ''prefix'' name)) ` set (local_names Posix tree_ab)
       \<union> (\<lambda>name. DeleteObject (normalised_key ''prefix'' name))
            ` set (remote_names ''prefix'' (Inr remote_ab))"
proof -
  have "set [UploadFile ''b/c.txt'' ''prefix/b/c.txt'', DeleteObject ''prefix/stale.txt'']
     \<subseteq> (\<lambda>name. UploadFile name (normalised_key ''prefix'' name)) ` set (local_names Posix tree_ab)
       \<union> (\<lambda>name. DeleteObject (normalised_key ''prefix'' name))
            ` set (remote_names ''prefix'' (Inr remote_ab))"
    using remote_key_form [of Posix "\<lambda>history c. None" tree_ab "''prefix''" True "Inr remote_ab"]
    by (simp only: run_ab)
  moreover have "normalised_key ''prefix'' ''b/c.txt'' = ''prefix/b/c.txt''"
    by (simp add: normalised_key_def slashify_def)
  ultimately show ?thesis by simp
qed

subsection \<open>C4: the relative path of a listed key\<close>

text \<open>
  Claim C4, as the specification states it, strips exactly one leading separator and leaves
  further slashes in place. For the key \<^verbatim>\<open>p//a\<close> listed under the prefix \<^verbatim>\<open>p\<close> the
  remote snapshot holds the name \<^verbatim>\<open>a\<close>, where the specification's relative path is
  \<^verbatim>\<open>/a\<close>.
\<close>

theorem all_leading_slashes_stripped:
  "scan_remote ''p'' [(''p//a'', 1)] = [(''a'', 1)] \<and> spec_relative_path ''p'' ''p//a'' = ''/a''"
  by (simp add: scan_remote_def dict_of_def relative_path_def py_replace_def lstrip_def
        spec_relative_path_def)

text \<open>
  Claim C4, amended. For every listed key in which the prefix occurs at the front only
  (the prefix is empty, or it does not occur in the rest of the key), the derived relative
  path is the key with the prefix removed from its front and all leading slashes stripped,
  and it is a name of the remote snapshot.
\<close>

theorem relative_path_strips_prefix:
  assumes "objects_filter s3_prefix listing = Inr objs"
    and "(key, last_modified) \<in> set objs"
    and "s3_prefix = [] \<or> \<not> sublist s3_prefix (drop (length s3_prefix) key)"
  shows "relative_path s3_prefix key = dropWhile (\<lambda>c. c = slash) (drop (length s3_prefix) key)
       \<and> relative_path s3_prefix key \<in> fst ` set (scan_remote s3_prefix objs)"
proof -
  from assms(1) obtain all_objs where "listing = Inr all_objs"
    and objs: "objs = filter (\<lambda>obj. prefix s3_prefix (fst obj)) all_objs"
    by (auto simp: objects_filter_def split: sum.splits)
  with assms(2) have "prefix s3_prefix key" by auto
  then obtain rest where key: "key = s3_prefix @ rest"
    by (auto simp: prefix_def)
  have "s3_prefix = [] \<or> \<not> sublist s3_prefix rest"
    using assms(3) by (simp add: key)
  then have "relative_path s3_prefix (s3_prefix @ rest) = dropWhile (\<lambda>c. c = slash) rest"
    by (rule relative_path_front)
  then have first: "relative_path s3_prefix key
                      = dropWhile (\<lambda>c. c = slash) (drop (length s3_prefix) key)"
    by (simp add: key)
  have "fst ` set (scan_remote s3_prefix objs) = relative_path s3_prefix ` fst ` set objs"
    by (simp add: scan_remote_def dict_of_keys image_image case_prod_beta)
  with assms(2) have "relative_path s3_prefix key \<in> fst ` set (scan_remote s3_prefix objs)"
    by force
  with first show ?thesis by simp
qed

theorem relative_path_strips_prefix_witness:
  "relative_path ''prefix'' ''prefix/b/c.txt'' = ''b/c.txt''
   \<and> ''b/c.txt'' \<in> fst ` set (scan_remote ''prefix'' remote_ab)"
proof -
  have m: "(''prefix/b/c.txt'', 150) \<in> set remote_ab" by (simp add: remote_ab_def)
  have s: "''prefix'' = [] \<or> \<not> sublist ''prefix'' (drop (length ''prefix'') ''prefix/b/c.txt'')"
    by (simp add: sublist_Cons_right)
  show ?thesis
    using relative_path_strips_prefix [OF objects_filter_ab m s] by (simp add: scan_remote_ab)
qed

subsection \<open>C5: distinct local files, distinct keys\<close>

text \<open>
  Claim C5, as the specification states it, makes the map from local path to key injective
  on every local snapshot. On a POSIX tree holding the file \<^verbatim>\<open>b\<close> in the directory
  \<^verbatim>\<open>a\<close> and a file whose name is \<^verbatim>\<open>a\b\<close>, the two distinct paths get the same key.
\<close>

theorem backslash_name_clash:
  "''a/b'' \<in> fst ` set (scan_local Posix tree_clash)
   \<and> ''a'' @ backslash # ''b'' \<in> fst ` set (scan_local Posix tree_clash)
   \<and> ''a/b'' \<noteq> ''a'' @ backslash # ''b''
   \<and> make_s3_key ''prefix'' ''a/b'' = make_s3_key ''prefix'' (''a'' @ backslash # ''b'')"
  by (simp add: tree_clash_def scan_local_def dict_of_def is_file_def make_s3_key_def
        py_replace_def lstrip_def)

text \<open>
  Claim C5, amended. Within one pass the map from the local paths of the snapshot to
  their keys is injective provided no path of the snapshot begins with a slash or a
  backslash and no two distinct paths of the snapshot become equal when their backslashes
  are replaced by slashes.
\<close>

theorem key_injective_up_to_separators:
  assumes "\<forall>name \<in> fst ` set (scan_local fl walk). \<not> leading_separator name"
    and "inj_on (py_replace [backslash] ''/'') (fst ` set (scan_local fl walk))"
  shows "inj_on (make_s3_key s3_prefix) (fst ` set (scan_local fl walk))"
proof (rule inj_onI)
  fix n1 n2
  assume n: "n1 \<in> fst ` set (scan_local fl walk)" "n2 \<in> fst ` set (scan_local fl walk)"
    and eq: "make_s3_key s3_prefix n1 = make_s3_key s3_prefix n2"
  from n assms(1) have l1: "\<not> leading_separator n1" and l2: "\<not> leading_separator n2"
    by blast+
  from eq have "normalised_key s3_prefix n1 = normalised_key s3_prefix n2"
    by (simp add: make_s3_key_normalised)
  with l1 l2 have "map slashify n1 = map slashify n2"
    by (rule normalised_eq_imp)
  then have "py_replace [backslash] ''/'' n1 = py_replace [backslash] ''/'' n2"
    by (simp add: py_replace_backslash)
  with assms(2) show "n1 = n2" using n by (rule inj_onD)
qed

theorem key_injective_up_to_separators_witness:
  "inj_on (make_s3_key ''prefix'') (fst ` set (scan_local Posix tree_ab))
   \<and> inj_on (make_s3_key ''prefix'') (fst ` set (scan_local Windows tree_ab))"
proof -
  have p1: "\<forall>name \<in> fst ` set (scan_local Posix tree_ab). \<not> leading_separator name"
    and p2: "inj_on (py_replace [backslash] ''/'') (fst ` set (scan_local Posix tree_ab))"
    by (simp_all add: scan_local_tree_ab leading_separator_def py_replace_def)
  have w: "scan_local Windows tree_ab = [(''a.txt'', 100), (''b'' @ backslash # ''c.txt'', 200)]"
    by (simp add: tree_ab_def scan_local_def dict_of_def is_file_def)
  have w1: "\<forall>name \<in> fst ` set (scan_local Windows tree_ab). \<not> leading_separator name"
    and w2: "inj_on (py_replace [backslash] ''/'') (fst ` set (scan_local Windows tree_ab))"
    by (simp_all add: w leading_separator_def py_replace_def)
  show ?thesis
    using key_injective_up_to_separators [OF p1 p2] key_injective_up_to_separators [OF w1 w2]
    by simp
qed

subsection \<open>C6: uploads and deletes on disjoint keys\<close>

text \<open>
  Claim C6 (upload keys and delete keys of one pass are disjoint) fails on the code. On
  Windows the file \<^verbatim>\<open>c.txt\<close> in the directory \<^verbatim>\<open>b\<close> has the local name \<^verbatim>\<open>b\c.txt\<close>
  while the object \<^verbatim>\<open>prefix/b/c.txt\<close> has the remote name \<^verbatim>\<open>b/c.txt\<close>: the names never
  match, so the pass uploads the file to \<^verbatim>\<open>prefix/b/c.txt\<close> and then deletes
  \<^verbatim>\<open>prefix/b/c.txt\<close>.
\<close>

theorem sync_deletes_uploaded_key:
  "calls (snd (sync_directory Windows (\<lambda>history c. None) tree_nested ''prefix'' True
                 (Inr [(''prefix/b/c.txt'', 100)])))
     = [UploadFile (''b'' @ backslash # ''c.txt'') ''prefix/b/c.txt'', DeleteObject ''prefix/b/c.txt'']"
  by (simp add: run_defs tree_nested_def)

subsection \<open>C7: uploads before deletes\<close>

text \<open>
  Claim C7. In every pass (with deletion enabled or not, whatever the bucket answers) the
  calls made split into a first part that consists of uploads only and a second part that
  consists of deletes only: no upload is issued after a delete.
\<close>

theorem uploads_before_deletes:
  "\<exists>us ds. calls (snd (sync_directory fl B walk s3_prefix delete listing)) = us @ ds
      \<and> list_all is_upload us \<and> list_all is_delete ds"
proof (cases "objects_filter s3_prefix listing")
  case (Inl e)
  then have "listing = Inl e" by (simp add: objects_filter_def split: sum.splits)
  then have "calls (snd (sync_directory fl B walk s3_prefix delete listing)) = []"
    by (simp add: sync_directory_listing_error)
  then show ?thesis by simp
next
  case (Inr objs)
  from sync_directory_calls [OF Inr, of fl B walk delete] obtain us ds where
    c: "calls (snd (sync_directory fl B walk s3_prefix delete listing)) = us @ ds"
    and u: "prefix us (planned_uploads s3_prefix (scan_remote s3_prefix objs) (scan_local fl walk))"
    and d: "prefix ds (if delete then planned_deletes s3_prefix (scan_local fl walk)
                                       (map fst (scan_remote s3_prefix objs)) else [])"
    by (elim exE conjE)
  have "list_all is_upload us"
    using set_mono_prefix [OF u] by (auto simp: planned_uploads_set list_all_iff)
  moreover have "list_all is_delete ds"
    using set_mono_prefix [OF d] by (auto simp: planned_deletes_set list_all_iff split: if_splits)
  ultimately show ?thesis
    by (intro exI [of _ us] exI [of _ ds]) (simp add: c)
qed

theorem uploads_before_deletes_witness:
  "\<exists>us ds. [UploadFile ''b/c.txt'' ''prefix/b/c.txt'', DeleteObject ''prefix/stale.txt''] = us @ ds
      \<and> list_all is_upload us \<and> list_all is_delete ds"
  using uploads_before_deletes [of Posix "\<lambda>history c. None" tree_ab "''prefix''" True "Inr remote_ab"]
  by (simp only: run_ab)

subsection \<open>C8: a failed action and the actions after it\<close>

text \<open>
  Claim C8 (a failed upload or delete does not keep the remaining actions from being
  attempted) fails on the code. \<^verbatim>\<open>upload_file\<close> reports a failed transfer by raising
  \<^verbatim>\<open>S3UploadFailedError\<close>, which is not a \<^verbatim>\<open>ClientError\<close>: neither the
  \<^verbatim>\<open>except ClientError\<close> of line 72 nor that of line 84 catches it. On the example tree
  and bucket the upload of \<^verbatim>\<open>b/c.txt\<close> fails in this way; the exception leaves
  \<^verbatim>\<open>sync_directory\<close>, nothing is printed, and the delete of \<^verbatim>\<open>prefix/stale.txt\<close> that
  the pass without failures makes is never attempted.
\<close>

theorem failed_upload_aborts_pass:
  "sync_directory Posix upload_transfer_fails tree_ab ''prefix'' True (Inr remote_ab)
     = (Inl OtherException,
        \<lparr>calls = [UploadFile ''b/c.txt'' ''prefix/b/c.txt''], printed = []\<rparr>)
   \<and> calls (snd (sync_directory Posix (\<lambda>history c. None) tree_ab ''prefix'' True (Inr remote_ab)))
     = [UploadFile ''b/c.txt'' ''prefix/b/c.txt'', DeleteObject ''prefix/stale.txt'']"
  by (simp add: sync_directory_def sync_body_def objects_filter_ab scan_local_tree_ab
        scan_remote_ab needs_upload_def attempt_def make_s3_key_def py_replace_def lstrip_def
        upload_transfer_fails_def Let_def)

subsection \<open>C9: the entries of the local snapshot\<close>

text \<open>
  Claim C9, as the specification states it, has no symbolic link among the entries. A
  symbolic link to a regular file passes \<^verbatim>\<open>is_file()\<close> and is an entry of the local
  snapshot.
\<close>

theorem symlink_is_an_entry:
  "is_symlink (hd tree_link) \<and> ''link.txt'' \<in> fst ` set (scan_local Posix tree_link)"
  by (simp add: tree_link_def scan_local_def dict_of_def is_file_def)

text \<open>
  Claim C9, amended. The names of the local snapshot of \<^verbatim>\<open>sync_directory\<close> are exactly
  the relative paths of the walked paths for which \<^verbatim>\<open>is_file()\<close> holds, that is whose
  \<^verbatim>\<open>stat()\<close>, which follows symbolic links, reports a regular file; directories,
  dangling links and links to directories are not entries. \<^verbatim>\<open>upload_directory\<close> uploads
  such paths only. Each relative path is taken against the root directory, and the key
  built from a name contains no backslash.
\<close>

theorem scan_local_entries:
  "fst ` set (scan_local fl walk)
     = (\<lambda>f. join_parts (sep fl) (rel_parts f)) ` {f \<in> set walk. stat_type f = Some Regular}
   \<and> set (calls (snd (upload_directory fl B walk s3_prefix)))
       \<subseteq> (\<lambda>f. UploadFile (join_parts (sep fl) (rel_parts f))
                   (make_s3_key s3_prefix (join_parts (sep fl) (rel_parts f))))
            ` {f \<in> set walk. stat_type f = Some Regular}
   \<and> backslash \<notin> set (make_s3_key s3_prefix name)"
proof -
  have names: "set (local_names fl walk)
      = (\<lambda>f. join_parts (sep fl) (rel_parts f)) ` {f \<in> set walk. stat_type f = Some Regular}"
    by (auto simp: local_names_def is_file_def)
  have "set (calls (snd (upload_directory fl B walk s3_prefix)))
       \<subseteq> (\<lambda>n. UploadFile n (make_s3_key s3_prefix n)) ` set (local_names fl walk)"
    by (rule upload_directory_calls)
  then have up: "set (calls (snd (upload_directory fl B walk s3_prefix)))
       \<subseteq> (\<lambda>f. UploadFile (join_parts (sep fl) (rel_parts f))
                   (make_s3_key s3_prefix (join_parts (sep fl) (rel_parts f))))
            ` {f \<in> set walk. stat_type f = Some Regular}"
    unfolding names by (simp add: image_image)
  have "backslash \<notin> set (make_s3_key s3_prefix name)"
  proof
    assume "backslash \<in> set (make_s3_key s3_prefix name)"
    then have "backslash \<in> set (map slashify (s3_prefix @ ''/'' @ name))"
      unfolding make_s3_key_eq by (rule set_dropWhileD)
    then show False by (auto simp: slashify_def split: if_splits)
  qed
  with up names show ?thesis by (simp add: scan_local_names)
qed

theorem scan_local_entries_witness:
  "fst ` set (scan_local Posix tree_link)
     = (\<lambda>f. join_parts slash (rel_parts f)) ` {f \<in> set tree_link. stat_type f = Some Regular}
   \<and> backslash \<notin> set (make_s3_key ''prefix'' (''b'' @ backslash # ''c.txt''))"
  using scan_local_entries [of Posix tree_link "\<lambda>history c. None" "''prefix''"
          "''b'' @ backslash # ''c.txt''"]
  by simp

subsection \<open>C10: get\_file\_size\<close>

text \<open>
  Claim C10. For every key, \<^verbatim>\<open>get_file_size\<close> returns the object's
  \<^verbatim>\<open>content_length\<close> when reading it succeeds, and returns \<^verbatim>\<open>None\<close>, raising nothing,
  when reading it raises \<^verbatim>\<open>ClientError\<close>.
\<close>

theorem get_file_size_result:
  "(content_length s3_key = Inr n \<longrightarrow> fst (get_file_size content_length s3_key) = Inr (Some n))
   \<and> (content_length s3_key = Inl ClientError \<longrightarrow>
        fst (get_file_size content_length s3_key) = Inr None)"
  by (simp add: get_file_size_def)

theorem get_file_size_result_witness:
  "fst (get_file_size (\<lambda>key. if key = ''a.txt'' then Inr 42 else Inl ClientError) ''a.txt'')
     = Inr (Some 42)
   \<and> fst (get_file_size (\<lambda>key. if key = ''a.txt'' then Inr 42 else Inl ClientError) ''gone.txt'')
     = Inr None"
  using get_file_size_result
          [of "\<lambda>key. if key = ''a.txt'' then Inr 42 else Inl ClientError" "''a.txt''" 42]
        get_file_size_result
          [of "\<lambda>key. if key = ''a.txt'' then Inr 42 else Inl ClientError" "''gone.txt''" 0]
  by simp

end
